theory Spec2Isabelle
  imports Complex_Main "HOL-Library.AList" "HOL-Library.Multiset"
begin

section \<open>The load driver of \<^verbatim>\<open>run_benchmark.py\<close>\<close>

text \<open>
  The driver starts \<^verbatim>\<open>NUM_THREADS\<close> workers. Each worker connects to one database, runs
  \<^verbatim>\<open>QUERIES_PER_THREAD\<close> randomly chosen statements, and returns its list of
  (query type, elapsed time) pairs and its error count. \<^verbatim>\<open>main\<close> merges the results of
  the workers and computes the report.

  Everything the code gets from outside (the draws of \<^verbatim>\<open>random.choice\<close>, whether a call
  of the database client raises, the elapsed time of a statement, the duration of the whole
  run) is an input of the model. Elapsed times are Python floats; they are modelled as
  real numbers, which every finite float is. \<^verbatim>\<open>statistics.mean\<close> sums its data exactly
  before it divides, and \<^verbatim>\<open>statistics.median\<close> sorts them, so neither depends on the
  order of the data in Python either.
\<close>

subsection \<open>Exceptions and configuration\<close>

datatype error = IndexError | ValueError | StatisticsError | ZeroDivisionError | DatabaseError

datatype query_kind = SELECT | INSERT | UPDATE

record config =
  DB_PREFIX :: string
  NUM_DATABASES :: int
  NUM_THREADS :: int
  QUERIES_PER_THREAD :: int

text \<open>\<^verbatim>\<open>range(a, b)\<close> and \<^verbatim>\<open>range(n)\<close>: empty when \<open>b \<le> a\<close>.\<close>

definition py_range_from :: "int \<Rightarrow> int \<Rightarrow> int list" where
  "py_range_from a b = map (\<lambda>k. a + int k) [0..<nat (b - a)]"

definition py_range :: "int \<Rightarrow> int list" where
  "py_range n = py_range_from 0 n"

subsection \<open>Decimal strings\<close>

definition digit_char :: "nat \<Rightarrow> char" where
  "digit_char d = ''0123456789'' ! d"

fun str_nat :: "nat \<Rightarrow> string" where
  "str_nat n = (if n < 10 then [digit_char n] else str_nat (n div 10) @ [digit_char (n mod 10)])"

declare str_nat.simps [simp del]

text \<open>\<^verbatim>\<open>str(n)\<close> on a Python int, as the f-strings of the source apply it.\<close>

definition py_str :: "int \<Rightarrow> string" where
  "py_str n = (if n < 0 then CHR ''-'' # str_nat (nat (- n)) else str_nat (nat n))"

text \<open>Line 29: \<^verbatim>\<open>DB_NAMES = [f"{DB_PREFIX}test{i}" for i in range(1, NUM_DATABASES + 1)]\<close>.\<close>

definition DB_NAMES :: "config \<Rightarrow> string list" where
  "DB_NAMES cfg =
     map (\<lambda>i. DB_PREFIX cfg @ ''test'' @ py_str i) (py_range_from 1 (NUM_DATABASES cfg + 1))"

subsection \<open>The identity of an inserted row\<close>

text \<open>Lines 65 and 66: \<^verbatim>\<open>username = f"user_{thread_id}_{i}"\<close> and
  \<^verbatim>\<open>email = f"{username}@example.com"\<close>.\<close>

definition insert_username :: "int \<Rightarrow> int \<Rightarrow> string" where
  "insert_username thread_id i = ''user_'' @ py_str thread_id @ ''_'' @ py_str i"

definition insert_email :: "int \<Rightarrow> int \<Rightarrow> string" where
  "insert_email thread_id i = insert_username thread_id i @ ''@example.com''"

subsection \<open>What a worker gets from outside\<close>

text \<open>
  One value of \<open>worker_env\<close> fixes everything that happens to one worker: the draws of
  \<^verbatim>\<open>random.choice\<close>, which calls of the database client raise, and how long each
  statement that succeeds takes. \<open>query_outcome env i = None\<close> says that a call in the
  \<^verbatim>\<open>try\<close> block of iteration \<open>i\<close> (\<^verbatim>\<open>execute\<close>, \<^verbatim>\<open>fetchall\<close> or
  \<^verbatim>\<open>commit\<close>) raises; \<open>Some t\<close> says that they all return and that
  \<^verbatim>\<open>time.time() - start_time\<close> is \<open>t\<close>.
\<close>

record worker_env =
  db_draw :: nat
  connect_raises :: bool
  cursor_raises :: bool
  kind_draw :: "int \<Rightarrow> nat"
  query_outcome :: "int \<Rightarrow> real option"
  cursor_close_raises :: bool
  connection_close_raises :: bool

text \<open>What a worker does to the outside: \<open>Connect\<close> is a call of
  \<^verbatim>\<open>mysql.connector.connect\<close> with the name of the database, \<open>Execute\<close> a call of
  \<^verbatim>\<open>cursor.execute\<close> with the statement and its parameters, \<open>Sleep\<close> a call of
  \<^verbatim>\<open>time.sleep\<close> with its duration in seconds. A call is in the trace whether it
  returns or raises.\<close>

datatype event = Connect string | Execute string "string list" | Sleep real

text \<open>\<^verbatim>\<open>random.choice(seq)\<close> raises \<^verbatim>\<open>IndexError\<close> on an empty sequence.\<close>

definition random_choice :: "'a list \<Rightarrow> nat \<Rightarrow> error + 'a" where
  "random_choice seq r = (if seq = [] then Inl IndexError else Inr (seq ! (r mod length seq)))"

text \<open>Line 53, \<^verbatim>\<open>random.choice(["SELECT", "INSERT", "UPDATE"])\<close>: the list is a literal
  of three elements, so the call cannot raise.\<close>

definition choose_query_type :: "nat \<Rightarrow> query_kind" where
  "choose_query_type r = [SELECT, INSERT, UPDATE] ! (r mod 3)"

text \<open>Lines 58 to 76: the statement of each query type.\<close>

definition statement :: "int \<Rightarrow> int \<Rightarrow> query_kind \<Rightarrow> event" where
  "statement thread_id i query_type =
     (case query_type of
        SELECT \<Rightarrow> Execute ''SELECT * FROM users LIMIT 10'' []
      | INSERT \<Rightarrow>
          Execute ''INSERT INTO users (username, email, first_name, last_name, status) VALUES (%s, %s, %s, %s, %s)''
            [insert_username thread_id i, insert_email thread_id i, ''First'', ''Last'', ''active'']
      | UPDATE \<Rightarrow> Execute ''UPDATE users SET status = 'active' WHERE id = 1'' [])"

subsection \<open>The worker\<close>

type_synonym query_record = "query_kind \<times> real"

type_synonym worker_state = "query_record list \<times> nat \<times> event list"

text \<open>
  Lines 52 to 86, one iteration. The \<^verbatim>\<open>append\<close> and the \<^verbatim>\<open>time.sleep(0.1)\<close> are the
  last statements of the \<^verbatim>\<open>try\<close> block, so they run only when nothing before them
  raised; the handler adds one to \<^verbatim>\<open>errors\<close> and nothing else.
\<close>

definition loop_body :: "int \<Rightarrow> worker_env \<Rightarrow> int \<Rightarrow> worker_state \<Rightarrow> worker_state" where
  "loop_body thread_id env i st =
     (case st of (query_times, errors, trace) \<Rightarrow>
        (let query_type = choose_query_type (kind_draw env i);
             sent = trace @ [statement thread_id i query_type]
         in case query_outcome env i of
              Some execution_time \<Rightarrow>
                (query_times @ [(query_type, execution_time)], errors, sent @ [Sleep (1 / 10)])
            | None \<Rightarrow> (query_times, errors + 1, sent)))"

fun query_loop :: "int \<Rightarrow> worker_env \<Rightarrow> int list \<Rightarrow> worker_state \<Rightarrow> worker_state" where
  "query_loop thread_id env [] st = st"
| "query_loop thread_id env (i # rest) st =
     query_loop thread_id env rest (loop_body thread_id env i st)"

text \<open>Lines 33 to 92, the body of the outer \<^verbatim>\<open>try\<close>: the value it returns or the
  exception that leaves it, and what the worker did until then.\<close>

definition thread_body ::
  "config \<Rightarrow> worker_env \<Rightarrow> int \<Rightarrow> (error + query_record list \<times> nat) \<times> event list" where
  "thread_body cfg env thread_id =
     (case random_choice (DB_NAMES cfg) (db_draw env) of
        Inl e \<Rightarrow> (Inl e, [])
      | Inr db_name \<Rightarrow>
          if connect_raises env then (Inl DatabaseError, [Connect db_name])
          else if cursor_raises env then (Inl DatabaseError, [Connect db_name])
          else
            (case query_loop thread_id env (py_range (QUERIES_PER_THREAD cfg))
                    ([], 0, [Connect db_name]) of
               (query_times, errors, trace) \<Rightarrow>
                 if cursor_close_raises env then (Inl DatabaseError, trace)
                 else if connection_close_raises env then (Inl DatabaseError, trace)
                 else (Inr (query_times, errors), trace)))"

text \<open>Lines 31 to 96: \<^verbatim>\<open>except Exception\<close> turns every exception of the body into
  \<^verbatim>\<open>return [], 1\<close>.\<close>

definition run_benchmark_thread ::
  "config \<Rightarrow> worker_env \<Rightarrow> int \<Rightarrow> (query_record list \<times> nat) \<times> event list" where
  "run_benchmark_thread cfg env thread_id =
     (case thread_body cfg env thread_id of
        (Inl e, trace) \<Rightarrow> (([], 1), trace)
      | (Inr result, trace) \<Rightarrow> (result, trace))"

subsection \<open>The collector\<close>

text \<open>\<^verbatim>\<open>all_query_times\<close> is a dict, which keeps its keys in the order of their first
  insertion: an association list with distinct keys, a new key going to the end.\<close>

type_synonym times_dict = "(query_kind \<times> real list) list"

text \<open>Lines 119 to 121. The lookup of line 121 cannot miss: line 120 has just stored the
  key when it was absent. (\<open>tms\<close> is the source's \<^verbatim>\<open>times\<close>, a name that HOL uses for
  multiplication.)\<close>

definition group_record :: "times_dict \<Rightarrow> query_record \<Rightarrow> times_dict" where
  "group_record all_query_times r =
     (case r of (query_type, execution_time) \<Rightarrow>
        (let d = (if map_of all_query_times query_type = None
                  then AList.update query_type [] all_query_times else all_query_times)
         in case map_of d query_type of
              Some tms \<Rightarrow> AList.update query_type (tms @ [execution_time]) d
            | None \<Rightarrow> d))"

fun group_times :: "times_dict \<Rightarrow> query_record list \<Rightarrow> times_dict" where
  "group_times all_query_times [] = all_query_times"
| "group_times all_query_times (r # rest) = group_times (group_record all_query_times r) rest"

text \<open>Lines 113 to 121: the results of the futures, in the order of submission.\<close>

fun merge_results ::
  "times_dict \<times> nat \<Rightarrow> (query_record list \<times> nat) list \<Rightarrow> times_dict \<times> nat" where
  "merge_results acc [] = acc"
| "merge_results (all_query_times, total_errors) ((query_times, errors) # rest) =
     merge_results (group_times all_query_times query_times, total_errors + errors) rest"

subsection \<open>Statistics\<close>

text \<open>\<^verbatim>\<open>statistics.mean\<close> and \<^verbatim>\<open>statistics.median\<close> raise \<^verbatim>\<open>StatisticsError\<close> on
  empty data, \<^verbatim>\<open>min\<close> and \<^verbatim>\<open>max\<close> raise \<^verbatim>\<open>ValueError\<close>.\<close>

definition mean :: "real list \<Rightarrow> error + real" where
  "mean data = (if data = [] then Inl StatisticsError
                else Inr (sum_list data / real (length data)))"

definition median :: "real list \<Rightarrow> error + real" where
  "median xs =
     (let data = sort xs; n = length data
      in if n = 0 then Inl StatisticsError
         else if n mod 2 = 1 then Inr (data ! (n div 2))
         else Inr ((data ! (n div 2 - 1) + data ! (n div 2)) / 2))"

definition py_min :: "real list \<Rightarrow> error + real" where
  "py_min xs = (case xs of [] \<Rightarrow> Inl ValueError | x # rest \<Rightarrow> Inr (fold min rest x))"

definition py_max :: "real list \<Rightarrow> error + real" where
  "py_max xs = (case xs of [] \<Rightarrow> Inl ValueError | x # rest \<Rightarrow> Inr (fold max rest x))"

record kind_stats =
  count :: nat
  avg_time :: real
  median_time :: real
  min_time :: real
  max_time :: real

definition stats_of :: "real list \<Rightarrow> error + kind_stats" where
  "stats_of tms =
     (case mean tms of Inl e \<Rightarrow> Inl e | Inr a \<Rightarrow>
      case median tms of Inl e \<Rightarrow> Inl e | Inr m \<Rightarrow>
      case py_min tms of Inl e \<Rightarrow> Inl e | Inr lo \<Rightarrow>
      case py_max tms of Inl e \<Rightarrow> Inl e | Inr hi \<Rightarrow>
        Inr \<lparr>count = length tms, avg_time = a, median_time = m, min_time = lo, max_time = hi\<rparr>)"

text \<open>Lines 137 to 149: one block of the report for each item of the dict whose list is
  not empty, in the order of the dict.\<close>

fun report_kinds :: "times_dict \<Rightarrow> error + (query_kind \<times> kind_stats) list" where
  "report_kinds [] = Inr []"
| "report_kinds ((query_type, tms) # rest) =
     (if tms \<noteq> [] then
        (case stats_of tms of
           Inl e \<Rightarrow> Inl e
         | Inr s \<Rightarrow>
             (case report_kinds rest of Inl e \<Rightarrow> Inl e | Inr blocks \<Rightarrow> Inr ((query_type, s) # blocks)))
      else report_kinds rest)"

subsection \<open>The run\<close>

record report =
  total_duration :: real
  total_queries :: nat
  total_errors :: nat
  queries_per_second :: real
  kinds :: "(query_kind \<times> kind_stats) list"

text \<open>Python's \<^verbatim>\<open>/\<close> raises on a zero divisor.\<close>

definition py_truediv :: "real \<Rightarrow> real \<Rightarrow> error + real" where
  "py_truediv a b = (if b = 0 then Inl ZeroDivisionError else Inr (a / b))"

text \<open>Line 127.\<close>

definition count_queries :: "times_dict \<Rightarrow> nat" where
  "count_queries all_query_times = sum_list (map (\<lambda>(query_type, tms). length tms) all_query_times)"

text \<open>Line 128.\<close>

definition throughput :: "nat \<Rightarrow> real \<Rightarrow> error + real" where
  "throughput n duration = (if duration > 0 then py_truediv (real n) duration else Inr 0)"

text \<open>Lines 113 to 149, from the results of the workers and the measured duration of the
  run.\<close>

definition collector :: "(query_record list \<times> nat) list \<Rightarrow> real \<Rightarrow> error + report" where
  "collector results duration =
     (case merge_results ([], 0) results of
        (all_query_times, errors) \<Rightarrow>
          (case throughput (count_queries all_query_times) duration of
             Inl e \<Rightarrow> Inl e
           | Inr qps \<Rightarrow>
               (case report_kinds all_query_times of
                  Inl e \<Rightarrow> Inl e
                | Inr blocks \<Rightarrow>
                    Inr \<lparr>total_duration = duration,
                         total_queries = count_queries all_query_times,
                         total_errors = errors,
                         queries_per_second = qps,
                         kinds = blocks\<rparr>)))"

text \<open>The results that the futures of line 107 hold, worker \<open>i\<close> running in the
  environment \<open>envs i\<close>.\<close>

definition worker_results ::
  "config \<Rightarrow> (int \<Rightarrow> worker_env) \<Rightarrow> (query_record list \<times> nat) list" where
  "worker_results cfg envs =
     map (\<lambda>i. fst (run_benchmark_thread cfg (envs i) i)) (py_range (NUM_THREADS cfg))"

text \<open>
  Lines 98 to 149. \<^verbatim>\<open>ThreadPoolExecutor(max_workers=n)\<close> raises \<^verbatim>\<open>ValueError\<close> when
  \<open>n \<le> 0\<close>, and nothing in \<^verbatim>\<open>main\<close> catches it. \<open>duration\<close> is
  \<^verbatim>\<open>end_time - start_time\<close> as the clock gave it.
\<close>

definition main :: "config \<Rightarrow> (int \<Rightarrow> worker_env) \<Rightarrow> real \<Rightarrow> error + report" where
  "main cfg envs duration =
     (if NUM_THREADS cfg \<le> 0 then Inl ValueError
      else collector (worker_results cfg envs) duration)"

section \<open>Notions the statements use\<close>

text \<open>The elapsed times of the records of one query type, in the order of the records.\<close>

definition times_of :: "query_kind \<Rightarrow> query_record list \<Rightarrow> real list" where
  "times_of k rs = map snd (filter (\<lambda>r. fst r = k) rs)"

text \<open>
  \<open>setup_raises\<close>: an exception before the loop (no database to choose from, or
  \<^verbatim>\<open>connect\<close> or \<^verbatim>\<open>cursor\<close> raises). \<open>teardown_raises\<close>: an exception after the
  loop, in \<^verbatim>\<open>cursor.close()\<close> or \<^verbatim>\<open>connection.close()\<close>. Both reach the outer
  handler. \<open>succeeded env q\<close> and \<open>failed env q\<close> count the iterations of
  \<^verbatim>\<open>range(q)\<close> whose statement returns and raises. \<open>sleeps\<close> reads the durations of the
  sleeps off a trace, and \<open>iteration_events\<close> is what one iteration of the loop does to the
  outside.
\<close>

definition setup_raises :: "config \<Rightarrow> worker_env \<Rightarrow> bool" where
  "setup_raises cfg env = (DB_NAMES cfg = [] \<or> connect_raises env \<or> cursor_raises env)"

definition teardown_raises :: "worker_env \<Rightarrow> bool" where
  "teardown_raises env = (cursor_close_raises env \<or> connection_close_raises env)"

definition worker_aborts :: "config \<Rightarrow> worker_env \<Rightarrow> bool" where
  "worker_aborts cfg env = (setup_raises cfg env \<or> teardown_raises env)"

definition succeeded :: "worker_env \<Rightarrow> int \<Rightarrow> nat" where
  "succeeded env q = length (filter (\<lambda>i. query_outcome env i \<noteq> None) (py_range q))"

definition failed :: "worker_env \<Rightarrow> int \<Rightarrow> nat" where
  "failed env q = length (filter (\<lambda>i. query_outcome env i = None) (py_range q))"

fun sleeps :: "event list \<Rightarrow> real list" where
  "sleeps [] = []"
| "sleeps (Sleep d # tr) = d # sleeps tr"
| "sleeps (e # tr) = sleeps tr"

definition iteration_events :: "int \<Rightarrow> worker_env \<Rightarrow> int \<Rightarrow> event list" where
  "iteration_events thread_id env i =
     statement thread_id i (choose_query_type (kind_draw env i)) #
       (if query_outcome env i = None then [] else [Sleep (1 / 10)])"

section \<open>Concrete runs\<close>

text \<open>A run of two workers with three queries each; a worker for which everything
  succeeds, one whose connection is refused, one whose second statement raises, and one
  whose second statement raises and whose connection then fails to close.\<close>

definition cfg_2x3 :: config where
  "cfg_2x3 = \<lparr>DB_PREFIX = ''bench_'', NUM_DATABASES = 2, NUM_THREADS = 2, QUERIES_PER_THREAD = 3\<rparr>"

definition env_ok :: worker_env where
  "env_ok = \<lparr>db_draw = 0, connect_raises = False, cursor_raises = False,
     kind_draw = (\<lambda>i. nat i), query_outcome = (\<lambda>i. Some (1 / 100)),
     cursor_close_raises = False, connection_close_raises = False\<rparr>"

definition env_refused :: worker_env where
  "env_refused = env_ok\<lparr>connect_raises := True\<rparr>"

definition env_flaky :: worker_env where
  "env_flaky = env_ok\<lparr>query_outcome := (\<lambda>i. if i = 1 then None else Some (1 / 4))\<rparr>"

definition env_close_fails :: worker_env where
  "env_close_fails = env_flaky\<lparr>connection_close_raises := True\<rparr>"

definition envs_one_refused :: "int \<Rightarrow> worker_env" where
  "envs_one_refused i = (if i = 1 then env_refused else env_ok)"

text \<open>The results of all workers but worker \<open>j\<close>.\<close>

definition results_without :: "int \<Rightarrow> config \<Rightarrow> (int \<Rightarrow> worker_env) \<Rightarrow> (query_record list \<times> nat) list" where
  "results_without j cfg envs =
     map (\<lambda>i. fst (run_benchmark_thread cfg (envs i) i))
       (filter (\<lambda>i. i \<noteq> j) (py_range (NUM_THREADS cfg)))"

text \<open>Two results of workers, for the order of merging, and two more configurations: one
  without workers and one without queries.\<close>

definition result_a :: "query_record list \<times> nat" where
  "result_a = ([(SELECT, 1 / 4), (UPDATE, 1 / 2)], 1)"

definition result_b :: "query_record list \<times> nat" where
  "result_b = ([(UPDATE, 1 / 10)], 0)"

definition cfg_no_workers :: config where
  "cfg_no_workers = cfg_2x3\<lparr>NUM_THREADS := 0\<rparr>"

definition cfg_no_queries :: config where
  "cfg_no_queries = cfg_2x3\<lparr>QUERIES_PER_THREAD := 0\<rparr>"

section \<open>Decimal strings are injective\<close>

lemma digit_char_inj: "a < 10 \<Longrightarrow> b < 10 \<Longrightarrow> digit_char a = digit_char b \<Longrightarrow> a = b"
proof -
  assume a: "a < 10" and b: "b < 10" and e: "digit_char a = digit_char b"
  have d: "distinct ''0123456789''" by simp
  have "a < length ''0123456789''" "b < length ''0123456789''" using a b by simp_all
  with d e show "a = b" unfolding digit_char_def by (simp only: nth_eq_iff_index_eq)
qed

lemma digit_char_in: "d < 10 \<Longrightarrow> digit_char d \<in> set ''0123456789''"
  unfolding digit_char_def by (rule nth_mem) simp

lemma str_nat_nonempty: "str_nat n \<noteq> []"
  by (subst str_nat.simps) simp

lemma str_nat_digits: "set (str_nat n) \<subseteq> set ''0123456789''"
proof (induction n rule: str_nat.induct)
  case (1 n)
  show ?case
  proof (cases "n < 10")
    case True
    then show ?thesis using digit_char_in [of n] by (subst str_nat.simps) simp
  next
    case False
    have "n mod 10 < 10" by simp
    then have "digit_char (n mod 10) \<in> set ''0123456789''" by (rule digit_char_in)
    with False "1.IH" show ?thesis by (subst str_nat.simps) simp
  qed
qed

lemma str_nat_inj: "str_nat n = str_nat m \<Longrightarrow> n = m"
proof (induction n arbitrary: m rule: str_nat.induct)
  case (1 n)
  show ?case
  proof (cases "n < 10")
    case n: True
    show ?thesis
    proof (cases "m < 10")
      case True
      with n "1.prems" show ?thesis
        by (simp add: str_nat.simps [of n] str_nat.simps [of m] digit_char_inj)
    next
      case False
      with n "1.prems" have "[digit_char n] = str_nat (m div 10) @ [digit_char (m mod 10)]"
        by (simp add: str_nat.simps [of n] str_nat.simps [of m])
      then have "str_nat (m div 10) = []" by simp
      then show ?thesis by (simp add: str_nat_nonempty)
    qed
  next
    case n: False
    show ?thesis
    proof (cases "m < 10")
      case True
      with n "1.prems" have "str_nat (n div 10) @ [digit_char (n mod 10)] = [digit_char m]"
        by (simp add: str_nat.simps [of n] str_nat.simps [of m])
      then have "str_nat (n div 10) = []" by simp
      then show ?thesis by (simp add: str_nat_nonempty)
    next
      case False
      with n "1.prems" have e: "str_nat (n div 10) = str_nat (m div 10)"
        and d: "digit_char (n mod 10) = digit_char (m mod 10)"
        by (simp_all add: str_nat.simps [of n] str_nat.simps [of m])
      from e n have q: "n div 10 = m div 10" by (rule "1.IH" [rotated])
      have "n mod 10 < 10" "m mod 10 < 10" by simp_all
      with d have r: "n mod 10 = m mod 10" by (rule digit_char_inj [rotated 2])
      from q r show ?thesis by (metis div_mult_mod_eq)
    qed
  qed
qed

lemma py_str_inj: "py_str a = py_str b \<Longrightarrow> a = b"
proof -
  assume e: "py_str a = py_str b"
  have nd: "\<And>k. hd (str_nat k) \<noteq> CHR ''-''"
  proof -
    fix k
    have "hd (str_nat k) \<in> set (str_nat k)" by (simp add: str_nat_nonempty)
    with str_nat_digits [of k] show "hd (str_nat k) \<noteq> CHR ''-''" by auto
  qed
  show "a = b"
  proof (cases "a < 0")
    case a: True
    show ?thesis
    proof (cases "b < 0")
      case True
      with a e have "str_nat (nat (- a)) = str_nat (nat (- b))" by (simp add: py_str_def)
      then have "nat (- a) = nat (- b)" by (rule str_nat_inj)
      with a True show ?thesis by simp
    next
      case False
      with a e have "CHR ''-'' # str_nat (nat (- a)) = str_nat (nat b)" by (simp add: py_str_def)
      then have "hd (str_nat (nat b)) = CHR ''-''" by (metis list.sel(1))
      with nd show ?thesis by simp
    qed
  next
    case a: False
    show ?thesis
    proof (cases "b < 0")
      case True
      with a e have "str_nat (nat a) = CHR ''-'' # str_nat (nat (- b))" by (simp add: py_str_def)
      then have "hd (str_nat (nat a)) = CHR ''-''" by (metis list.sel(1))
      with nd show ?thesis by simp
    next
      case False
      with a e have "str_nat (nat a) = str_nat (nat b)" by (simp add: py_str_def)
      then have "nat a = nat b" by (rule str_nat_inj)
      with a False show ?thesis by simp
    qed
  qed
qed

lemma py_str_no_underscore: "CHR ''_'' \<notin> set (py_str n)"
  using str_nat_digits [of "nat n"] str_nat_digits [of "nat (- n)"]
  by (auto simp: py_str_def)

lemma split_at_separator:
  "c \<notin> set a \<Longrightarrow> c \<notin> set a' \<Longrightarrow> a @ c # b = a' @ c # b' \<Longrightarrow> a = a' \<and> b = b'"
proof (induction a arbitrary: a')
  case Nil
  then show ?case by (cases a') auto
next
  case (Cons x a)
  then show ?case by (cases a') auto
qed

text \<open>
  C5. The user name and the email that the INSERT of worker \<open>thread_id\<close> at iteration \<open>i\<close>
  writes determine the pair \<open>(thread_id, i)\<close>: two different pairs never give the same user
  name, nor the same email.
\<close>

theorem insert_identity_injective:
  "(insert_username t i = insert_username t' i') = (t = t' \<and> i = i') \<and>
   (insert_email t i = insert_email t' i') = (t = t' \<and> i = i')"
proof -
  have u: "insert_username t i = insert_username t' i' \<Longrightarrow> t = t' \<and> i = i'"
  proof -
    assume "insert_username t i = insert_username t' i'"
    then have "py_str t @ CHR ''_'' # py_str i = py_str t' @ CHR ''_'' # py_str i'"
      by (simp add: insert_username_def)
    then have "py_str t = py_str t' \<and> py_str i = py_str i'"
      by (rule split_at_separator [OF py_str_no_underscore py_str_no_underscore])
    then show "t = t' \<and> i = i'" by (simp add: py_str_inj)
  qed
  have "insert_email t i = insert_email t' i' \<Longrightarrow> insert_username t i = insert_username t' i'"
    by (simp add: insert_email_def)
  with u show ?thesis by blast
qed

section \<open>The worker\<close>

text \<open>One iteration adds one record or one error, never both.\<close>

lemma loop_body_counts:
  "loop_body tid env i (qt, e, tr) = (qt', e', tr') \<Longrightarrow>
     length qt' = length qt + (if query_outcome env i = None then 0 else 1) \<and>
     e' = e + (if query_outcome env i = None then 1 else 0)"
  by (auto simp: loop_body_def Let_def split: option.splits)

lemma query_loop_counts:
  "query_loop tid env js (qt, e, tr) = (qt', e', tr') \<Longrightarrow>
     length qt' = length qt + length (filter (\<lambda>i. query_outcome env i \<noteq> None) js) \<and>
     e' = e + length (filter (\<lambda>i. query_outcome env i = None) js)"
proof (induction js arbitrary: qt e tr)
  case Nil
  then show ?case by simp
next
  case (Cons i js)
  obtain qt1 e1 tr1 where b: "loop_body tid env i (qt, e, tr) = (qt1, e1, tr1)"
    by (cases "loop_body tid env i (qt, e, tr)") auto
  with Cons.prems have "query_loop tid env js (qt1, e1, tr1) = (qt', e', tr')" by simp
  from Cons.IH [OF this] loop_body_counts [OF b] show ?case by auto
qed

lemma length_py_range: "length (py_range n) = nat n"
  by (simp add: py_range_def py_range_from_def)

lemma succeeded_failed: "succeeded env q + failed env q = nat q"
  using sum_length_filter_compl [of "\<lambda>i. query_outcome env i \<noteq> None" "py_range q"]
  by (simp add: succeeded_def failed_def length_py_range)

lemma loop_body_trace:
  "snd (snd (loop_body tid env i (qt, e, tr))) = tr @ iteration_events tid env i"
  by (simp add: loop_body_def Let_def iteration_events_def split: option.splits)

lemma query_loop_trace:
  "snd (snd (query_loop tid env js (qt, e, tr))) = tr @ concat (map (iteration_events tid env) js)"
proof (induction js arbitrary: qt e tr)
  case Nil
  show ?case by simp
next
  case (Cons i js)
  obtain qt1 e1 tr1 where b: "loop_body tid env i (qt, e, tr) = (qt1, e1, tr1)"
    by (cases "loop_body tid env i (qt, e, tr)") auto
  from loop_body_trace [of tid env i qt e tr] b have "tr1 = tr @ iteration_events tid env i" by simp
  with b Cons.IH [of qt1 e1 tr1] show ?case by simp
qed

lemma sleeps_append: "sleeps (xs @ ys) = sleeps xs @ sleeps ys"
  by (induction xs rule: sleeps.induct) simp_all

lemma sleeps_iteration:
  "sleeps (iteration_events tid env i) = (if query_outcome env i = None then [] else [1 / 10])"
  by (simp add: iteration_events_def statement_def split: query_kind.splits)

lemma sleeps_iterations:
  "sleeps (concat (map (iteration_events tid env) js)) =
     replicate (length (filter (\<lambda>i. query_outcome env i \<noteq> None) js)) (1 / 10)"
  by (induction js) (simp_all add: sleeps_append sleeps_iteration)

lemma thread_body_setup:
  "setup_raises cfg env \<Longrightarrow> \<exists>e tr. thread_body cfg env tid = (Inl e, tr) \<and> sleeps tr = []"
  by (auto simp: setup_raises_def thread_body_def random_choice_def)

lemma thread_body_run:
  assumes "\<not> setup_raises cfg env"
  shows "\<exists>db qt e.
     query_loop tid env (py_range (QUERIES_PER_THREAD cfg)) ([], 0, [Connect db]) =
       (qt, e, Connect db # concat (map (iteration_events tid env) (py_range (QUERIES_PER_THREAD cfg)))) \<and>
     length qt = succeeded env (QUERIES_PER_THREAD cfg) \<and>
     e = failed env (QUERIES_PER_THREAD cfg) \<and>
     thread_body cfg env tid =
       (if teardown_raises env then Inl DatabaseError else Inr (qt, e),
        Connect db # concat (map (iteration_events tid env) (py_range (QUERIES_PER_THREAD cfg))))"
proof -
  let ?js = "py_range (QUERIES_PER_THREAD cfg)"
  from assms obtain db where db: "random_choice (DB_NAMES cfg) (db_draw env) = Inr db"
    by (auto simp: setup_raises_def random_choice_def)
  obtain qt e tr where l: "query_loop tid env ?js ([], 0, [Connect db]) = (qt, e, tr)"
    by (cases "query_loop tid env ?js ([], 0, [Connect db])") auto
  from query_loop_trace [of tid env ?js "[]" 0 "[Connect db]"] l
  have tr: "tr = Connect db # concat (map (iteration_events tid env) ?js)" by simp
  from query_loop_counts [OF l]
  have c: "length qt = succeeded env (QUERIES_PER_THREAD cfg)" "e = failed env (QUERIES_PER_THREAD cfg)"
    by (simp_all add: succeeded_def failed_def)
  from assms db l have "thread_body cfg env tid =
      (if teardown_raises env then Inl DatabaseError else Inr (qt, e), tr)"
    by (simp add: thread_body_def setup_raises_def teardown_raises_def)
  with l tr c show ?thesis by blast
qed

lemma worker_aborts_result:
  "worker_aborts cfg env \<Longrightarrow> fst (run_benchmark_thread cfg env tid) = ([], 1)"
proof (cases "setup_raises cfg env")
  case True
  from thread_body_setup [OF True, of tid] show ?thesis by (auto simp: run_benchmark_thread_def)
next
  case False
  assume "worker_aborts cfg env"
  with False have t: "teardown_raises env" by (simp add: worker_aborts_def)
  from thread_body_run [OF False, of tid] t show ?thesis by (auto simp: run_benchmark_thread_def)
qed

lemma worker_completes_result:
  "\<not> worker_aborts cfg env \<Longrightarrow>
     length (fst (fst (run_benchmark_thread cfg env tid))) = succeeded env (QUERIES_PER_THREAD cfg) \<and>
     snd (fst (run_benchmark_thread cfg env tid)) = failed env (QUERIES_PER_THREAD cfg)"
proof -
  assume a: "\<not> worker_aborts cfg env"
  then have s: "\<not> setup_raises cfg env" and t: "\<not> teardown_raises env"
    by (simp_all add: worker_aborts_def)
  from thread_body_run [OF s, of tid] t show ?thesis by (auto simp: run_benchmark_thread_def)
qed

lemma worker_sleeps:
  "sleeps (snd (run_benchmark_thread cfg env tid)) =
     replicate (if setup_raises cfg env then 0 else succeeded env (QUERIES_PER_THREAD cfg)) (1 / 10)"
proof (cases "setup_raises cfg env")
  case True
  from thread_body_setup [OF True, of tid] True show ?thesis
    by (auto simp: run_benchmark_thread_def)
next
  case False
  from thread_body_run [OF False, of tid] False show ?thesis
    by (auto simp: run_benchmark_thread_def sleeps_iterations succeeded_def)
qed


section \<open>The collector\<close>

lemma count_queries_update_new:
  "map_of m k = None \<Longrightarrow> count_queries (AList.update k v m) = count_queries m + length v"
  by (induction m) (auto simp: count_queries_def)

lemma count_queries_update_old:
  "map_of m k = Some w \<Longrightarrow> count_queries (AList.update k v m) + length w = count_queries m + length v"
  by (induction m) (auto simp: count_queries_def)

lemma count_queries_group_record: "count_queries (group_record m r) = Suc (count_queries m)"
proof (cases r)
  case (Pair k t)
  show ?thesis
  proof (cases "map_of m k")
    case None
    then have "map_of (AList.update k [] m) k = Some []" by (simp add: update_conv')
    with None Pair show ?thesis
      using count_queries_update_new [OF None, of "[]"]
            count_queries_update_old [of "AList.update k [] m" k "[]" "[t]"]
      by (simp add: group_record_def)
  next
    case (Some w)
    with Pair show ?thesis
      using count_queries_update_old [OF Some, of "w @ [t]"]
      by (simp add: group_record_def)
  qed
qed

lemma count_queries_group_times: "count_queries (group_times m rs) = count_queries m + length rs"
  by (induction rs arbitrary: m) (simp_all add: count_queries_group_record)

lemma group_times_append: "group_times m (xs @ ys) = group_times (group_times m xs) ys"
  by (induction xs arbitrary: m) simp_all

lemma merge_results_eq:
  "merge_results (m, e) rs = (group_times m (concat (map fst rs)), e + sum_list (map snd rs))"
proof (induction rs arbitrary: m e)
  case Nil
  show ?case by simp
next
  case (Cons r rs)
  obtain qt er where r: "r = (qt, er)" by (cases r)
  show ?case by (simp add: r Cons.IH group_times_append)
qed


lemma map_of_group_record:
  "map_of (group_record m (k, t)) k' =
     (if k' = k then Some ((case map_of m k of None \<Rightarrow> [] | Some w \<Rightarrow> w) @ [t]) else map_of m k')"
  by (cases "map_of m k") (simp_all add: group_record_def update_conv')

lemma distinct_group_record: "distinct (map fst m) \<Longrightarrow> distinct (map fst (group_record m r))"
  by (cases r) (auto simp: group_record_def Let_def distinct_update split: option.splits)

lemma distinct_group_times: "distinct (map fst m) \<Longrightarrow> distinct (map fst (group_times m rs))"
  by (induction rs arbitrary: m) (simp_all add: distinct_group_record)

lemma map_of_group_times:
  "map_of (group_times m rs) k =
     (if times_of k rs = [] then map_of m k
      else Some ((case map_of m k of None \<Rightarrow> [] | Some w \<Rightarrow> w) @ times_of k rs))"
proof (induction rs arbitrary: m)
  case Nil
  show ?case by (simp add: times_of_def)
next
  case (Cons r rs)
  obtain k' t where r: "r = (k', t)" by (cases r)
  show ?case
    by (simp add: r Cons.IH map_of_group_record times_of_def)
qed

lemma map_of_group_times_empty:
  "map_of (group_times [] rs) k = (if times_of k rs = [] then None else Some (times_of k rs))"
  by (simp add: map_of_group_times)

lemma group_times_no_empty_list: "(k, ts) \<in> set (group_times [] rs) \<Longrightarrow> ts \<noteq> []"
proof -
  assume a: "(k, ts) \<in> set (group_times [] rs)"
  have "distinct (map fst (group_times [] rs))" by (rule distinct_group_times) simp
  with a have "map_of (group_times [] rs) k = Some ts" by simp
  then show "ts \<noteq> []" by (auto simp: map_of_group_times_empty split: if_splits)
qed

lemma throughput_eq: "throughput n d = Inr (if d > 0 then real n / d else 0)"
  by (simp add: throughput_def py_truediv_def)

lemma fold_min_Min: "fold min xs (x::real) = Min (set (x # xs))"
  by (simp only: Min.set_eq_fold)

lemma fold_max_Max: "fold max xs (x::real) = Max (set (x # xs))"
  by (simp only: Max.set_eq_fold)

lemma stats_of_nonempty:
  "ts \<noteq> [] \<Longrightarrow> stats_of ts =
     Inr \<lparr>count = length ts, avg_time = sum_list ts / real (length ts),
          median_time = (let data = sort ts; n = length ts in
             if n mod 2 = 1 then data ! (n div 2) else (data ! (n div 2 - 1) + data ! (n div 2)) / 2),
          min_time = Min (set ts), max_time = Max (set ts)\<rparr>"
  by (cases ts) (simp_all add: stats_of_def mean_def median_def py_min_def py_max_def Let_def
       fold_min_Min fold_max_Max)

lemma stats_of_returns: "ts \<noteq> [] \<Longrightarrow> stats_of ts = Inr (projr (stats_of ts))"
  by (simp add: stats_of_nonempty)

lemma report_kinds_eq:
  "report_kinds m =
     Inr (map (\<lambda>(k, ts). (k, projr (stats_of ts))) (filter (\<lambda>(k, ts). ts \<noteq> []) m))"
proof (induction m)
  case Nil
  show ?case by simp
next
  case (Cons p m)
  obtain k ts where p: "p = (k, ts)" by (cases p)
  show ?case
  proof (cases "ts = []")
    case True
    with Cons.IH p show ?thesis by simp
  next
    case False
    from stats_of_returns [OF False] obtain s where s: "stats_of ts = Inr s" ..
    with False Cons.IH p show ?thesis by simp
  qed
qed

lemma collector_eq:
  "collector rs d =
     Inr \<lparr>total_duration = d,
          total_queries = length (concat (map fst rs)),
          total_errors = sum_list (map snd rs),
          queries_per_second = (if d > 0 then real (length (concat (map fst rs))) / d else 0),
          kinds = map (\<lambda>(k, ts). (k, projr (stats_of ts)))
                    (filter (\<lambda>(k, ts). ts \<noteq> []) (group_times [] (concat (map fst rs))))\<rparr>"
proof -
  have c: "count_queries (group_times [] (concat (map fst rs))) = length (concat (map fst rs))"
    by (simp only: count_queries_group_times) (simp add: count_queries_def)
  show ?thesis
    unfolding collector_def merge_results_eq
    by (simp only: prod.case c throughput_eq report_kinds_eq sum.case) simp
qed


section \<open>The run\<close>

lemma main_eq: "0 < NUM_THREADS cfg \<Longrightarrow> main cfg envs d = collector (worker_results cfg envs) d"
  by (simp add: main_def)

lemma worker_total:
  "length (fst (fst (run_benchmark_thread cfg env tid))) + snd (fst (run_benchmark_thread cfg env tid)) =
     (if worker_aborts cfg env then 1 else nat (QUERIES_PER_THREAD cfg))"
  using worker_aborts_result [of cfg env tid] worker_completes_result [of cfg env tid]
        succeeded_failed [of env "QUERIES_PER_THREAD cfg"]
  by (cases "worker_aborts cfg env") simp_all

lemma results_records:
  "length (concat (map fst (worker_results cfg envs))) =
     (\<Sum>i\<leftarrow>py_range (NUM_THREADS cfg). length (fst (fst (run_benchmark_thread cfg (envs i) i))))"
  by (simp add: worker_results_def length_concat comp_def)

lemma results_errors:
  "sum_list (map snd (worker_results cfg envs)) =
     (\<Sum>i\<leftarrow>py_range (NUM_THREADS cfg). snd (fst (run_benchmark_thread cfg (envs i) i)))"
  by (simp add: worker_results_def comp_def)

text \<open>
  C1, as amended. A run with at least one worker completes, and the number of records it
  merges plus its error count is the sum, over the workers, of 1 for a worker whose setup
  or teardown raised and of the number of queries per worker for every other worker. When
  no worker's setup or teardown raises, that is \<open>NUM_THREADS * QUERIES_PER_THREAD\<close>,
  whichever queries fail.
\<close>

theorem records_plus_errors:
  assumes "0 < NUM_THREADS cfg"
  shows "\<exists>rep. main cfg envs d = Inr rep \<and>
     total_queries rep + total_errors rep =
       (\<Sum>i\<leftarrow>py_range (NUM_THREADS cfg).
          if worker_aborts cfg (envs i) then 1 else nat (QUERIES_PER_THREAD cfg)) \<and>
     (0 \<le> QUERIES_PER_THREAD cfg \<and> (\<forall>i \<in> set (py_range (NUM_THREADS cfg)). \<not> worker_aborts cfg (envs i)) \<longrightarrow>
        int (total_queries rep + total_errors rep) = NUM_THREADS cfg * QUERIES_PER_THREAD cfg)"
proof -
  let ?js = "py_range (NUM_THREADS cfg)"
  let ?f = "\<lambda>i. fst (run_benchmark_thread cfg (envs i) i)"
  let ?n = "length (concat (map fst (worker_results cfg envs))) + sum_list (map snd (worker_results cfg envs))"
  have "?n = (\<Sum>i\<leftarrow>?js. length (fst (?f i)) + snd (?f i))"
    by (simp only: results_records results_errors sum_list_addf)
  then have s: "?n = (\<Sum>i\<leftarrow>?js. if worker_aborts cfg (envs i) then 1 else nat (QUERIES_PER_THREAD cfg))"
    by (simp only: worker_total)
  have w: "0 \<le> QUERIES_PER_THREAD cfg \<and> (\<forall>i \<in> set ?js. \<not> worker_aborts cfg (envs i)) \<longrightarrow>
        int ?n = NUM_THREADS cfg * QUERIES_PER_THREAD cfg"
  proof
    assume a: "0 \<le> QUERIES_PER_THREAD cfg \<and> (\<forall>i \<in> set ?js. \<not> worker_aborts cfg (envs i))"
    then have "map (\<lambda>i. if worker_aborts cfg (envs i) then 1 else nat (QUERIES_PER_THREAD cfg)) ?js =
               map (\<lambda>i. nat (QUERIES_PER_THREAD cfg)) ?js" by simp
    with s have "?n = (\<Sum>i\<leftarrow>?js. nat (QUERIES_PER_THREAD cfg))" by simp
    then have "?n = nat (NUM_THREADS cfg) * nat (QUERIES_PER_THREAD cfg)"
      by (simp add: sum_list_triv length_py_range)
    with a assms show "int ?n = NUM_THREADS cfg * QUERIES_PER_THREAD cfg" by simp
  qed
  obtain rep where rep: "collector (worker_results cfg envs) d = Inr rep"
    and n: "total_queries rep + total_errors rep = ?n"
    by (simp add: collector_eq)
  from rep have m: "main cfg envs d = Inr rep" by (simp add: main_eq [OF assms])
  from m s w show ?thesis unfolding n [symmetric] by blast
qed

theorem records_plus_errors_witness:
  "0 < NUM_THREADS cfg_2x3 \<and>
   (\<exists>rep. main cfg_2x3 (\<lambda>i. env_flaky) 2 = Inr rep \<and> total_queries rep = 4 \<and> total_errors rep = 2 \<and>
      int (total_queries rep + total_errors rep) = NUM_THREADS cfg_2x3 * QUERIES_PER_THREAD cfg_2x3)"
proof -
  have h: "0 < NUM_THREADS cfg_2x3" by (simp add: cfg_2x3_def)
  have a: "0 \<le> QUERIES_PER_THREAD cfg_2x3 \<and>
      (\<forall>i \<in> set (py_range (NUM_THREADS cfg_2x3)). \<not> worker_aborts cfg_2x3 env_flaky)"
    by code_simp
  from records_plus_errors [OF h, of "\<lambda>i. env_flaky" 2] a obtain rep
    where m: "main cfg_2x3 (\<lambda>i. env_flaky) 2 = Inr rep"
      and n: "int (total_queries rep + total_errors rep) = NUM_THREADS cfg_2x3 * QUERIES_PER_THREAD cfg_2x3"
    by auto
  have "map_sum id (\<lambda>rep. (total_queries rep, total_errors rep)) (main cfg_2x3 (\<lambda>i. env_flaky) 2) = Inr (4, 2)"
    by code_simp
  with m have "total_queries rep = 4" "total_errors rep = 2" by simp_all
  with h m n show ?thesis by blast
qed

text \<open>
  C1 as stated fails: of two workers with three queries each, the second is refused its
  connection. The first contributes three records, the second one error: 4, not 6.
\<close>

theorem records_plus_errors_counterexample:
  "map_sum id (\<lambda>rep. (total_queries rep, total_errors rep)) (main cfg_2x3 envs_one_refused 2) = Inr (3, 1) \<and>
   NUM_THREADS cfg_2x3 * QUERIES_PER_THREAD cfg_2x3 = 6"
  by code_simp


lemma py_range_set: "(j \<in> set (py_range n)) = (0 \<le> j \<and> j < n)"
proof -
  have "(j \<in> set (py_range n)) = (\<exists>k < nat n. j = int k)"
    by (auto simp: py_range_def py_range_from_def)
  also have "\<dots> = (0 \<le> j \<and> j < n)"
  proof
    assume "\<exists>k < nat n. j = int k"
    then show "0 \<le> j \<and> j < n" by auto
  next
    assume a: "0 \<le> j \<and> j < n"
    then have "nat j < nat n" "j = int (nat j)" by simp_all
    then show "\<exists>k < nat n. j = int k" by blast
  qed
  finally show ?thesis .
qed

lemma py_range_distinct: "distinct (py_range n)"
  by (simp add: py_range_def py_range_from_def distinct_map inj_on_def)

lemma records_without:
  "fst (f j) = [] \<Longrightarrow>
     concat (map fst (map f (filter (\<lambda>i. i \<noteq> j) xs))) = concat (map fst (map f xs))"
  by (induction xs) auto

lemma errors_without:
  "distinct xs \<Longrightarrow> j \<in> set xs \<Longrightarrow>
     sum_list (map snd (map f xs)) = sum_list (map snd (map f (filter (\<lambda>i. i \<noteq> j) xs))) + (snd (f j) :: nat)"
proof (induction xs)
  case Nil
  then show ?case by simp
next
  case (Cons x xs)
  show ?case
  proof (cases "x = j")
    case True
    with Cons.prems have "j \<notin> set xs" by simp
    then have "filter (\<lambda>i. i \<noteq> j) xs = xs" by (auto simp: filter_id_conv)
    with True show ?thesis by simp
  next
    case False
    with Cons show ?thesis by simp
  qed
qed

text \<open>
  C2. When the connection attempt of worker \<open>j\<close> raises, that worker returns no record and
  one error, and the report of the run is the report that the collector makes of the
  results of the other workers, with one more error: their records and errors are merged
  as they are.
\<close>

theorem connection_failure_is_local:
  assumes "connect_raises (envs j)" and "0 \<le> j" and "j < NUM_THREADS cfg"
  shows "fst (run_benchmark_thread cfg (envs j) j) = ([], 1) \<and>
    (\<exists>rep. collector (results_without j cfg envs) d = Inr rep \<and>
       main cfg envs d = Inr (rep\<lparr>total_errors := total_errors rep + 1\<rparr>))"
proof -
  let ?f = "\<lambda>i. fst (run_benchmark_thread cfg (envs i) i)"
  let ?js = "py_range (NUM_THREADS cfg)"
  from assms(1) have "worker_aborts cfg (envs j)"
    by (simp add: worker_aborts_def setup_raises_def)
  then have w: "?f j = ([], 1)" by (rule worker_aborts_result)
  from assms have j: "j \<in> set ?js" by (simp add: py_range_set)
  from w have r: "concat (map fst (results_without j cfg envs)) = concat (map fst (worker_results cfg envs))"
    unfolding results_without_def worker_results_def by (intro records_without) simp
  from errors_without [OF py_range_distinct j, of ?f] w
  have e: "sum_list (map snd (worker_results cfg envs)) =
      sum_list (map snd (results_without j cfg envs)) + 1"
    unfolding results_without_def worker_results_def by simp
  from assms have p: "0 < NUM_THREADS cfg" by simp
  have "main cfg envs d = map_sum id (\<lambda>rep. rep\<lparr>total_errors := total_errors rep + 1\<rparr>)
      (collector (results_without j cfg envs) d)"
    unfolding main_eq [OF p] collector_eq r e by simp
  with w show ?thesis by (simp add: collector_eq)
qed

theorem connection_failure_is_local_witness:
  "connect_raises (envs_one_refused 1) \<and> (0::int) \<le> 1 \<and> 1 < NUM_THREADS cfg_2x3 \<and>
   fst (run_benchmark_thread cfg_2x3 (envs_one_refused 1) 1) = ([], 1) \<and>
   map_sum id (\<lambda>rep. (total_queries rep, total_errors rep, map fst (kinds rep)))
     (collector (results_without 1 cfg_2x3 envs_one_refused) 2) = Inr (3, 0, [SELECT, INSERT, UPDATE]) \<and>
   map_sum id (\<lambda>rep. (total_queries rep, total_errors rep, map fst (kinds rep)))
     (main cfg_2x3 envs_one_refused 2) = Inr (3, 1, [SELECT, INSERT, UPDATE])"
proof -
  have h: "connect_raises (envs_one_refused 1)" "(0::int) \<le> 1" "1 < NUM_THREADS cfg_2x3"
    by (simp_all add: envs_one_refused_def env_refused_def cfg_2x3_def)
  have c: "map_sum id (\<lambda>rep. (total_queries rep, total_errors rep, map fst (kinds rep)))
     (collector (results_without 1 cfg_2x3 envs_one_refused) 2) = Inr (3, 0, [SELECT, INSERT, UPDATE])"
    by code_simp
  from connection_failure_is_local [of envs_one_refused 1 cfg_2x3 2, OF h] c h show ?thesis by auto
qed


section \<open>The order of merging\<close>

lemma map_of_blocks:
  "distinct (map fst m) \<Longrightarrow>
     map_of (map (\<lambda>(k, ts). (k, g ts)) (filter (\<lambda>(k, ts). ts \<noteq> []) m)) k =
       (case map_of m k of None \<Rightarrow> None | Some ts \<Rightarrow> if ts = [] then None else Some (g ts))"
proof (induction m)
  case Nil
  show ?case by simp
next
  case (Cons p m)
  obtain k' ts where p: "p = (k', ts)" by (cases p)
  from Cons.prems p have n: "map_of m k' = None" by (simp add: map_of_eq_None_iff)
  from Cons.prems have "distinct (map fst m)" by simp
  note ih = Cons.IH [OF this]
  show ?case
  proof (cases "k = k'")
    case True
    with p n ih show ?thesis by simp
  next
    case False
    with p ih show ?thesis by simp
  qed
qed

lemma kinds_lookup:
  "map_of (map (\<lambda>(k, ts). (k, projr (stats_of ts)))
       (filter (\<lambda>(k, ts). ts \<noteq> []) (group_times [] recs))) k =
     (if times_of k recs = [] then None else Some (projr (stats_of (times_of k recs))))"
proof -
  have "distinct (map fst (group_times [] recs))" by (rule distinct_group_times) simp
  then show ?thesis by (simp add: map_of_blocks map_of_group_times_empty)
qed

lemma kinds_distinct:
  "distinct (map fst (map (\<lambda>(k, ts). (k, g ts)) (filter P (group_times [] recs))))"
proof -
  have d: "distinct (map fst (group_times [] recs))" by (rule distinct_group_times) simp
  have e: "map fst (map (\<lambda>(k, ts). (k, g ts)) (filter P (group_times [] recs))) =
        map fst (filter P (group_times [] recs))"
    by (simp add: comp_def case_prod_unfold)
  show ?thesis unfolding e by (rule distinct_map_filter [OF d])
qed

lemma times_of_concat: "times_of k (concat xss) = concat (map (times_of k) xss)"
  by (induction xss) (simp_all add: times_of_def)

lemma mset_times_of_perm:
  assumes "mset rs = mset rs'"
  shows "mset (times_of k (concat (map fst rs))) = mset (times_of k (concat (map fst rs')))"
proof -
  have h: "\<And>xs. mset (times_of k (concat (map fst xs))) =
      sum_mset (image_mset (\<lambda>r. mset (times_of k (fst r))) (mset xs))"
    by (simp add: times_of_concat mset_concat comp_def flip: sum_mset_sum_list)
  show ?thesis by (simp only: h assms)
qed

lemma stats_of_mset: "mset ts = mset ts' \<Longrightarrow> stats_of ts = stats_of ts'"
proof (cases "ts = []")
  case True
  assume "mset ts = mset ts'"
  with True show ?thesis by simp
next
  case False
  assume e: "mset ts = mset ts'"
  with False have n: "ts' \<noteq> []" by auto
  from e have l: "length ts = length ts'" by (rule mset_eq_length)
  from e have s: "sum_list ts = sum_list ts'" by (metis sum_mset_sum_list)
  from e have o: "sort ts = sort ts'" by (metis properties_for_sort sorted_sort mset_sort)
  from e have t: "set ts = set ts'" by (rule mset_eq_setD)
  show ?thesis by (simp only: stats_of_nonempty [OF False] stats_of_nonempty [OF n] l s o t)
qed

lemma length_records_perm:
  assumes "mset rs = mset rs'"
  shows "length (concat (map fst rs)) = length (concat (map fst (rs' :: (query_record list \<times> nat) list)))"
proof -
  have h: "\<And>xs :: (query_record list \<times> nat) list. length (concat (map fst xs)) =
      sum_mset (image_mset (\<lambda>r. length (fst r)) (mset xs))"
    by (simp add: length_concat comp_def flip: sum_mset_sum_list)
  show ?thesis by (simp only: h assms)
qed

lemma errors_perm:
  assumes "mset rs = mset rs'"
  shows "sum_list (map snd rs) = sum_list (map snd (rs' :: (query_record list \<times> nat) list))"
proof -
  have h: "\<And>xs :: (query_record list \<times> nat) list. sum_list (map snd xs) =
      sum_mset (image_mset snd (mset xs))"
    by (simp flip: sum_mset_sum_list)
  show ?thesis by (simp only: h assms)
qed

text \<open>
  C8. Merging the same results of workers in another order gives the same total number of
  queries, the same number of errors, the same throughput, and for every query type the
  same block of count, mean, median, minimum and maximum. (Only the order of the blocks
  in the report follows the order of merging.)
\<close>

theorem merge_order_irrelevant:
  assumes "mset rs = mset rs'"
  shows "\<exists>rep rep'. collector rs d = Inr rep \<and> collector rs' d = Inr rep' \<and>
     total_queries rep' = total_queries rep \<and>
     total_errors rep' = total_errors rep \<and>
     queries_per_second rep' = queries_per_second rep \<and>
     map_of (kinds rep') = map_of (kinds rep) \<and>
     set (kinds rep') = set (kinds rep)"
proof -
  let ?blocks = "\<lambda>xs. map (\<lambda>(k, ts). (k, projr (stats_of ts)))
      (filter (\<lambda>(k, ts). ts \<noteq> []) (group_times [] (concat (map fst xs))))"
  have m: "map_of (?blocks rs') = map_of (?blocks rs)"
  proof
    fix k
    from assms have e: "mset (times_of k (concat (map fst rs))) = mset (times_of k (concat (map fst rs')))"
      by (rule mset_times_of_perm)
    then have "(times_of k (concat (map fst rs)) = []) = (times_of k (concat (map fst rs')) = [])"
      by (metis mset_zero_iff)
    with stats_of_mset [OF e] show "map_of (?blocks rs') k = map_of (?blocks rs) k"
      by (simp only: kinds_lookup)
  qed
  have s: "set (?blocks rs') = set (?blocks rs)"
    using m by (simp only: map_of_inject_set [OF kinds_distinct kinds_distinct])
  from m s length_records_perm [OF assms] errors_perm [OF assms] show ?thesis
    by (simp add: collector_eq)
qed


theorem merge_order_irrelevant_witness:
  "mset [result_a, result_b] = mset [result_b, result_a] \<and>
   (\<exists>rep rep'. collector [result_a, result_b] 2 = Inr rep \<and>
      collector [result_b, result_a] 2 = Inr rep' \<and>
      map fst (kinds rep) = [SELECT, UPDATE] \<and> map fst (kinds rep') = [UPDATE, SELECT] \<and>
      total_queries rep' = total_queries rep \<and> total_errors rep' = total_errors rep \<and>
      queries_per_second rep' = queries_per_second rep \<and> set (kinds rep') = set (kinds rep))"
proof -
  have h: "mset [result_a, result_b] = mset [result_b, result_a]" by simp
  from merge_order_irrelevant [OF h, of 2] obtain rep rep'
    where r: "collector [result_a, result_b] 2 = Inr rep" "collector [result_b, result_a] 2 = Inr rep'"
      and e: "total_queries rep' = total_queries rep" "total_errors rep' = total_errors rep"
        "queries_per_second rep' = queries_per_second rep" "set (kinds rep') = set (kinds rep)"
    by blast
  have "map_sum id (\<lambda>rep. map fst (kinds rep)) (collector [result_a, result_b] 2) = Inr [SELECT, UPDATE]"
    "map_sum id (\<lambda>rep. map fst (kinds rep)) (collector [result_b, result_a] 2) = Inr [UPDATE, SELECT]"
    by code_simp+
  with r have "map fst (kinds rep) = [SELECT, UPDATE]" "map fst (kinds rep') = [UPDATE, SELECT]"
    by simp_all
  with h r e show ?thesis by simp
qed

section \<open>Sleeps and teardown\<close>

text \<open>
  C3. The delay of line 82 is there, as the comment above it says, to avoid hammering the
  database, and every iteration should end with one sleep of 0.1 seconds. The code misses
  the sleep when the query raises, because \<^verbatim>\<open>time.sleep(0.1)\<close> is inside the
  \<^verbatim>\<open>try\<close> block: a worker runs three queries and the second raises. It sleeps twice,
  not three times, and the iteration that fails sends its statement, counts one error and
  goes on to the next statement without a sleep.
\<close>

theorem sleep_skipped_after_failed_query:
  "QUERIES_PER_THREAD cfg_2x3 = 3 \<and>
   sleeps (snd (run_benchmark_thread cfg_2x3 env_flaky 0)) = [1 / 10, 1 / 10] \<and>
   query_outcome env_flaky 1 = None \<and>
   loop_body 0 env_flaky 1 ([], 0, []) =
     ([], 1,
      [Execute ''INSERT INTO users (username, email, first_name, last_name, status) VALUES (%s, %s, %s, %s, %s)''
         [''user_0_1'', ''user_0_1@example.com'', ''First'', ''Last'', ''active'']])"
  by code_simp

text \<open>
  C9. When nothing raises before the loop and \<^verbatim>\<open>cursor.close()\<close> or
  \<^verbatim>\<open>connection.close()\<close> raises after it, the loop has run to its end and has collected
  one record for every query that succeeded and counted every query that failed, and the
  worker returns the empty list and the error count 1 all the same.
\<close>

theorem teardown_failure_discards:
  assumes "\<not> setup_raises cfg env" and "teardown_raises env"
  shows "\<exists>db qt e tr.
     query_loop tid env (py_range (QUERIES_PER_THREAD cfg)) ([], 0, [Connect db]) = (qt, e, tr) \<and>
     length qt = succeeded env (QUERIES_PER_THREAD cfg) \<and>
     e = failed env (QUERIES_PER_THREAD cfg) \<and>
     run_benchmark_thread cfg env tid = (([], 1), tr)"
proof -
  let ?tr = "\<lambda>db. Connect db # concat (map (iteration_events tid env) (py_range (QUERIES_PER_THREAD cfg)))"
  from thread_body_run [OF assms(1), of tid] obtain db qt e
    where l: "query_loop tid env (py_range (QUERIES_PER_THREAD cfg)) ([], 0, [Connect db]) = (qt, e, ?tr db)"
      and c: "length qt = succeeded env (QUERIES_PER_THREAD cfg)" "e = failed env (QUERIES_PER_THREAD cfg)"
      and b: "thread_body cfg env tid = (if teardown_raises env then Inl DatabaseError else Inr (qt, e), ?tr db)"
    by blast
  from b assms(2) have "run_benchmark_thread cfg env tid = (([], 1), ?tr db)"
    by (simp add: run_benchmark_thread_def)
  with l c show ?thesis by blast
qed

theorem teardown_failure_discards_witness:
  "\<not> setup_raises cfg_2x3 env_close_fails \<and> teardown_raises env_close_fails \<and>
   succeeded env_close_fails (QUERIES_PER_THREAD cfg_2x3) = 2 \<and>
   failed env_close_fails (QUERIES_PER_THREAD cfg_2x3) = 1 \<and>
   fst (run_benchmark_thread cfg_2x3 env_close_fails 0) = ([], 1) \<and>
   fst (run_benchmark_thread cfg_2x3 env_flaky 0) = ([(SELECT, 1 / 4), (UPDATE, 1 / 4)], 1)"
proof -
  have h: "\<not> setup_raises cfg_2x3 env_close_fails" "teardown_raises env_close_fails"
    by code_simp+
  have c: "succeeded env_close_fails (QUERIES_PER_THREAD cfg_2x3) = 2"
    "failed env_close_fails (QUERIES_PER_THREAD cfg_2x3) = 1"
    "fst (run_benchmark_thread cfg_2x3 env_flaky 0) = ([(SELECT, 1 / 4), (UPDATE, 1 / 4)], 1)"
    by code_simp+
  from teardown_failure_discards [OF h, of 0] have "fst (run_benchmark_thread cfg_2x3 env_close_fails 0) = ([], 1)"
    by auto
  with h c show ?thesis by blast
qed


section \<open>Runs without queries, throughput and blocks\<close>

lemma worker_without_queries:
  assumes "QUERIES_PER_THREAD cfg = 0"
  shows "fst (run_benchmark_thread cfg env tid) = ([], if worker_aborts cfg env then 1 else 0)"
proof (cases "worker_aborts cfg env")
  case True
  then show ?thesis by (simp add: worker_aborts_result)
next
  case False
  from worker_completes_result [OF False, of tid] assms False show ?thesis
    by (simp add: succeeded_def failed_def py_range_def py_range_from_def prod_eq_iff)
qed

lemma count_aborts:
  "(\<Sum>i\<leftarrow>js. if P i then 1 else 0) = length (filter P js)"
  by (induction js) simp_all

text \<open>
  C4, as amended. With at least one worker and no query per worker, the run completes
  without raising: it reports no query, a throughput of zero, no block, and as many errors
  as there are workers whose setup or teardown raised (none when no connection fails).
\<close>

theorem run_without_queries:
  assumes "0 < NUM_THREADS cfg" and "QUERIES_PER_THREAD cfg = 0"
  shows "main cfg envs d =
     Inr \<lparr>total_duration = d, total_queries = 0,
          total_errors = length (filter (\<lambda>i. worker_aborts cfg (envs i)) (py_range (NUM_THREADS cfg))),
          queries_per_second = 0, kinds = []\<rparr>"
proof -
  have r: "worker_results cfg envs =
      map (\<lambda>i. ([], if worker_aborts cfg (envs i) then 1 else 0)) (py_range (NUM_THREADS cfg))"
    by (simp add: worker_results_def worker_without_queries [OF assms(2)])
  have c: "concat (map fst (worker_results cfg envs)) = []"
    by (simp add: r comp_def)
  have e: "sum_list (map snd (worker_results cfg envs)) =
      length (filter (\<lambda>i. worker_aborts cfg (envs i)) (py_range (NUM_THREADS cfg)))"
    by (simp add: r comp_def count_aborts)
  show ?thesis
    unfolding main_eq [OF assms(1)] collector_eq c e by simp
qed

theorem run_without_queries_witness:
  "0 < NUM_THREADS cfg_no_queries \<and> QUERIES_PER_THREAD cfg_no_queries = 0 \<and>
   main cfg_no_queries (\<lambda>i. env_ok) 2 =
     Inr \<lparr>total_duration = 2, total_queries = 0, total_errors = 0, queries_per_second = 0, kinds = []\<rparr>"
proof -
  have h: "0 < NUM_THREADS cfg_no_queries" "QUERIES_PER_THREAD cfg_no_queries = 0"
    by (simp_all add: cfg_no_queries_def cfg_2x3_def)
  have "filter (\<lambda>i. worker_aborts cfg_no_queries env_ok) (py_range (NUM_THREADS cfg_no_queries)) = []"
    by code_simp
  with run_without_queries [OF h, of "\<lambda>i. env_ok" 2] h show ?thesis by simp
qed

text \<open>
  C4 as stated fails twice. Without workers the run raises \<^verbatim>\<open>ValueError\<close>; without
  queries, a worker whose connection is refused still counts as one error.
\<close>

theorem run_without_queries_counterexample:
  "NUM_THREADS cfg_no_workers = 0 \<and>
   main cfg_no_workers (\<lambda>i. env_ok) 2 = Inl ValueError \<and>
   QUERIES_PER_THREAD cfg_no_queries = 0 \<and>
   main cfg_no_queries envs_one_refused 2 =
     Inr \<lparr>total_duration = 2, total_queries = 0, total_errors = 1, queries_per_second = 0, kinds = []\<rparr>"
  by code_simp

text \<open>
  C6. A run with at least one worker reports as throughput its total number of queries
  divided by its duration when the duration is positive, and zero when the duration is
  zero or negative.
\<close>

theorem throughput_of_run:
  assumes "0 < NUM_THREADS cfg"
  shows "\<exists>rep. main cfg envs d = Inr rep \<and> total_duration rep = d \<and>
     queries_per_second rep = (if d > 0 then real (total_queries rep) / d else 0)"
  unfolding main_eq [OF assms] collector_eq by simp

theorem throughput_of_run_witness:
  "0 < NUM_THREADS cfg_2x3 \<and>
   (\<exists>rep. main cfg_2x3 envs_one_refused 2 = Inr rep \<and> total_queries rep = 3 \<and>
      queries_per_second rep = 3 / 2) \<and>
   (\<exists>rep. main cfg_2x3 envs_one_refused 0 = Inr rep \<and> total_queries rep = 3 \<and>
      queries_per_second rep = 0) \<and>
   (\<exists>rep. main cfg_2x3 envs_one_refused (- 1) = Inr rep \<and> total_queries rep = 3 \<and>
      queries_per_second rep = 0)"
proof -
  have h: "0 < NUM_THREADS cfg_2x3" by (simp add: cfg_2x3_def)
  have q: "\<And>d. map_sum id total_queries (main cfg_2x3 envs_one_refused d) = Inr 3"
    unfolding main_eq [OF h] collector_eq by code_simp
  from throughput_of_run [OF h, of envs_one_refused 2] q [of 2]
  have a: "\<exists>rep. main cfg_2x3 envs_one_refused 2 = Inr rep \<and> total_queries rep = 3 \<and>
      queries_per_second rep = 3 / 2" by auto
  from throughput_of_run [OF h, of envs_one_refused 0] q [of 0]
  have b: "\<exists>rep. main cfg_2x3 envs_one_refused 0 = Inr rep \<and> total_queries rep = 3 \<and>
      queries_per_second rep = 0" by auto
  from throughput_of_run [OF h, of envs_one_refused "- 1"] q [of "- 1"]
  have c: "\<exists>rep. main cfg_2x3 envs_one_refused (- 1) = Inr rep \<and> total_queries rep = 3 \<and>
      queries_per_second rep = 0" by auto
  from h a b c show ?thesis by blast
qed


text \<open>
  C7. The report of a run has a block for query type \<open>k\<close> exactly when the workers
  returned at least one record of type \<open>k\<close>. A type without a record is not a key of the
  merged dict and has no block. A type with records is a key, its list is the non-empty
  list of the elapsed times of these records, and its block holds the count, mean, median,
  minimum and maximum of that list, none of which raises.
\<close>

theorem kinds_reported_iff_recorded:
  assumes "0 < NUM_THREADS cfg"
  shows "\<exists>rep. main cfg envs d = Inr rep \<and>
     (map_of (kinds rep) k \<noteq> None) = (times_of k (concat (map fst (worker_results cfg envs))) \<noteq> []) \<and>
     (case map_of (fst (merge_results ([], 0) (worker_results cfg envs))) k of
        None \<Rightarrow> times_of k (concat (map fst (worker_results cfg envs))) = [] \<and>
          map_of (kinds rep) k = None
      | Some ts \<Rightarrow> ts = times_of k (concat (map fst (worker_results cfg envs))) \<and> ts \<noteq> [] \<and>
          (\<exists>s. map_of (kinds rep) k = Some s \<and> stats_of ts = Inr s \<and> count s = length ts))"
proof -
  let ?recs = "concat (map fst (worker_results cfg envs))"
  let ?ts = "times_of k ?recs"
  obtain rep where rep: "collector (worker_results cfg envs) d = Inr rep"
    and k: "kinds rep = map (\<lambda>(k, ts). (k, projr (stats_of ts)))
        (filter (\<lambda>(k, ts). ts \<noteq> []) (group_times [] ?recs))"
    by (simp add: collector_eq)
  have l: "map_of (kinds rep) k = (if ?ts = [] then None else Some (projr (stats_of ?ts)))"
    unfolding k by (rule kinds_lookup)
  have d: "map_of (fst (merge_results ([], 0) (worker_results cfg envs))) k =
      (if ?ts = [] then None else Some ?ts)"
    by (simp add: merge_results_eq map_of_group_times_empty)
  have s: "?ts \<noteq> [] \<Longrightarrow> stats_of ?ts = Inr (projr (stats_of ?ts)) \<and>
      count (projr (stats_of ?ts)) = length ?ts"
    by (simp add: stats_of_nonempty)
  from rep have m: "main cfg envs d = Inr rep" by (simp add: main_eq [OF assms])
  show ?thesis
  proof (cases "?ts = []")
    case True
    with m l d show ?thesis by auto
  next
    case False
    with m l d s [OF False] show ?thesis by auto
  qed
qed

theorem kinds_reported_iff_recorded_witness:
  "0 < NUM_THREADS cfg_2x3 \<and>
   map_of (fst (merge_results ([], 0) (worker_results cfg_2x3 (\<lambda>i. env_flaky)))) INSERT = None \<and>
   map_of (fst (merge_results ([], 0) (worker_results cfg_2x3 (\<lambda>i. env_flaky)))) SELECT = Some [1 / 4, 1 / 4] \<and>
   (\<exists>rep. main cfg_2x3 (\<lambda>i. env_flaky) 2 = Inr rep \<and> map_of (kinds rep) INSERT = None \<and>
      map_of (kinds rep) SELECT =
        Some \<lparr>count = 2, avg_time = 1 / 4, median_time = 1 / 4, min_time = 1 / 4, max_time = 1 / 4\<rparr>)"
proof -
  have h: "0 < NUM_THREADS cfg_2x3" by (simp add: cfg_2x3_def)
  have i: "map_of (fst (merge_results ([], 0) (worker_results cfg_2x3 (\<lambda>i. env_flaky)))) INSERT = None"
    by code_simp
  have s: "map_of (fst (merge_results ([], 0) (worker_results cfg_2x3 (\<lambda>i. env_flaky)))) SELECT = Some [1 / 4, 1 / 4]"
    by code_simp
  have v: "stats_of [1 / 4, 1 / 4] =
      Inr \<lparr>count = 2, avg_time = 1 / 4, median_time = 1 / 4, min_time = 1 / 4, max_time = 1 / 4\<rparr>"
    by code_simp
  from kinds_reported_iff_recorded [OF h, of "\<lambda>i. env_flaky" 2 INSERT] i
  obtain rep where m: "main cfg_2x3 (\<lambda>i. env_flaky) 2 = Inr rep" and a: "map_of (kinds rep) INSERT = None"
    by auto
  from kinds_reported_iff_recorded [OF h, of "\<lambda>i. env_flaky" 2 SELECT] s v m
  have "map_of (kinds rep) SELECT =
        Some \<lparr>count = 2, avg_time = 1 / 4, median_time = 1 / 4, min_time = 1 / 4, max_time = 1 / 4\<rparr>"
    by auto
  with h i s m a show ?thesis by simp
qed

lemma worker_records:
  "length (fst (fst (run_benchmark_thread cfg env tid))) =
     (if worker_aborts cfg env then 0 else succeeded env (QUERIES_PER_THREAD cfg))"
  using worker_aborts_result [of cfg env tid] worker_completes_result [of cfg env tid]
  by (cases "worker_aborts cfg env") simp_all

text \<open>
  C10. The total number of queries of the report is the sum of the lengths of the lists
  of the merged dict, which is the number of queries that succeeded in the workers that
  returned their records. Queries that failed are not in it, nor in the numerator of the
  throughput.
\<close>

theorem total_queries_counts_successes:
  assumes "0 < NUM_THREADS cfg"
  shows "\<exists>rep. main cfg envs d = Inr rep \<and>
     total_queries rep = count_queries (fst (merge_results ([], 0) (worker_results cfg envs))) \<and>
     total_queries rep =
       (\<Sum>i\<leftarrow>py_range (NUM_THREADS cfg).
          if worker_aborts cfg (envs i) then 0 else succeeded (envs i) (QUERIES_PER_THREAD cfg)) \<and>
     queries_per_second rep =
       (if d > 0
        then real (\<Sum>i\<leftarrow>py_range (NUM_THREADS cfg).
               if worker_aborts cfg (envs i) then 0 else succeeded (envs i) (QUERIES_PER_THREAD cfg)) / d
        else 0)"
proof -
  let ?recs = "concat (map fst (worker_results cfg envs))"
  have c: "count_queries (fst (merge_results ([], 0) (worker_results cfg envs))) = length ?recs"
    by (simp add: merge_results_eq count_queries_group_times) (simp add: count_queries_def)
  have n: "length ?recs = (\<Sum>i\<leftarrow>py_range (NUM_THREADS cfg).
          if worker_aborts cfg (envs i) then 0 else succeeded (envs i) (QUERIES_PER_THREAD cfg))"
    by (simp only: results_records worker_records)
  show ?thesis
    unfolding main_eq [OF assms] collector_eq c n [symmetric] by simp
qed

theorem total_queries_counts_successes_witness:
  "0 < NUM_THREADS cfg_2x3 \<and>
   succeeded env_flaky (QUERIES_PER_THREAD cfg_2x3) = 2 \<and> failed env_flaky (QUERIES_PER_THREAD cfg_2x3) = 1 \<and>
   (\<exists>rep. main cfg_2x3 (\<lambda>i. env_flaky) 2 = Inr rep \<and> total_queries rep = 4 \<and>
      queries_per_second rep = 2)"
proof -
  have h: "0 < NUM_THREADS cfg_2x3" by (simp add: cfg_2x3_def)
  have s: "succeeded env_flaky (QUERIES_PER_THREAD cfg_2x3) = 2"
    "failed env_flaky (QUERIES_PER_THREAD cfg_2x3) = 1" by code_simp+
  have t: "(\<Sum>i\<leftarrow>py_range (NUM_THREADS cfg_2x3).
          if worker_aborts cfg_2x3 env_flaky then 0 else succeeded env_flaky (QUERIES_PER_THREAD cfg_2x3)) = 4"
    by code_simp
  from total_queries_counts_successes [OF h, of "\<lambda>i. env_flaky" 2] t
  have "\<exists>rep. main cfg_2x3 (\<lambda>i. env_flaky) 2 = Inr rep \<and> total_queries rep = 4 \<and>
      queries_per_second rep = 2" by auto
  with h s show ?thesis by blast
qed


end
